theory Spec2Isabelle
  imports Complex_Main "HOL-Library.Word" "HOL-Library.Sublist"
begin

section \<open>The variable-length format checker of hound\<close>

text \<open>
  The source is \<^verbatim>\<open>scripts/formatchecker/varlen_fmt.py\<close>: one function, \<^verbatim>\<open>check\<close>,
  which the jsonschema library calls as the format checker registered under the name
  \<^verbatim>\<open>varlen-fmt\<close>. It scans a list of format descriptors (dictionaries decoded from a
  YAML or JSON schema) and raises \<^verbatim>\<open>FormatError\<close> when a descriptor whose \<^verbatim>\<open>size\<close> is 0
  stands anywhere but at the last index.
\<close>

subsection \<open>Values and descriptors\<close>

text \<open>
  The values a decoded schema holds. Python's \<^verbatim>\<open>int\<close> is unbounded, a \<^verbatim>\<open>float\<close> is an
  IEEE 754 double, kept here as its 64 bits. A dictionary is an association list in
  insertion order; \<^verbatim>\<open>d[k]\<close> is \<open>map_of d k\<close>, and \<open>None\<close> stands for \<^verbatim>\<open>KeyError\<close>.
  The keys of a dictionary are distinct; nothing below depends on it.
\<close>

datatype pyval =
    PNone
  | PBool bool
  | PInt int
  | PFloat "64 word"
  | PStr string
  | PList "pyval list"
  | PDict "(string \<times> pyval) list"

type_synonym descriptor = "(string \<times> pyval) list"

text \<open>
  The number a double stands for: bit 63 is the sign, bits 62 to 52 the biased exponent,
  bits 51 to 0 the fraction. Exponent 2047 is an infinity or a NaN, which is no number.
\<close>

definition float_value :: "64 word \<Rightarrow> rat option" where
  "float_value w =
     (let e = unat (take_bit 11 (drop_bit 52 w));
          m = unat (take_bit 52 w);
          s = (if bit w 63 then - 1 else 1 :: rat)
      in if e = 2047 then None
         else if e = 0 then Some (s * (of_nat m / 2 ^ 1074))
         else Some (s * (of_nat (2 ^ 52 + m) * 2 ^ e / 2 ^ 1075)))"

text \<open>
  The numeric value of a Python object, for the objects that are numbers: \<^verbatim>\<open>bool\<close> is a
  subclass of \<^verbatim>\<open>int\<close> with \<^verbatim>\<open>False\<close> = 0 and \<^verbatim>\<open>True\<close> = 1.
\<close>

fun py_num :: "pyval \<Rightarrow> rat option" where
  "py_num (PBool b) = Some (if b then 1 else 0)"
| "py_num (PInt n) = Some (of_int n)"
| "py_num (PFloat w) = float_value w"
| "py_num PNone = None"
| "py_num (PStr s) = None"
| "py_num (PList xs) = None"
| "py_num (PDict d) = None"

text \<open>
  Python's \<^verbatim>\<open>v == n\<close> for an integer literal \<open>n\<close>: numbers compare by value (an
  \<^verbatim>\<open>int\<close> and a \<^verbatim>\<open>float\<close> exactly), and any other object is unequal to an integer.
\<close>

definition py_eq_int :: "pyval \<Rightarrow> int \<Rightarrow> bool" where
  "py_eq_int v n = (py_num v = Some (of_int n))"

subsection \<open>The error\<close>

text \<open>
  \<^verbatim>\<open>jsonschema.exceptions.FormatError(message)\<close>: the exception holds one string.
\<close>

datatype error = FormatError (message: string)

text \<open>
  The message is \<^verbatim>\<open>'''...fmt: %s''' % fmt\<close>. The literal opens with a backslash and a
  line break, which Python drops, so the text starts with the four spaces of its first
  line. The only conversion is the final \<^verbatim>\<open>%s\<close>, which Python replaces by \<^verbatim>\<open>str(fmt)\<close>.
  The builtin \<^verbatim>\<open>str\<close> is not part of the repository: it is the parameter \<open>str_of\<close>.
\<close>

definition message_text :: string where
  "message_text =
     ''    variable-length (size 0) property must be the last format\<newline>    specified but is not\<newline>    fmt: ''"

definition format_message :: "(descriptor \<Rightarrow> string) \<Rightarrow> descriptor \<Rightarrow> string" where
  "format_message str_of fmt = message_text @ str_of fmt"

subsection \<open>check\<close>

definition FORMAT_NAME :: string where
  "FORMAT_NAME = ''varlen-fmt''"

text \<open>
  The loop \<^verbatim>\<open>for i, fmt in enumerate(fmt_list)\<close>: \<open>i\<close> is the running index and the last
  argument is what is left to visit. \<^verbatim>\<open>KeyError\<close> on \<^verbatim>\<open>fmt['size']\<close> continues with the
  next descriptor; the \<^verbatim>\<open>raise\<close> leaves the loop with the error.
  \<^verbatim>\<open>len(fmt_list)-1\<close> is computed on Python integers, so it is an \<open>int\<close> here.
\<close>

fun check_loop ::
  "(descriptor \<Rightarrow> string) \<Rightarrow> descriptor list \<Rightarrow> nat \<Rightarrow> descriptor list \<Rightarrow> error + bool"
where
  "check_loop str_of fmt_list i [] = Inr True"
| "check_loop str_of fmt_list i (fmt # rest) =
     (case map_of fmt ''size'' of
        None \<Rightarrow> check_loop str_of fmt_list (Suc i) rest
      | Some size' \<Rightarrow>
          if py_eq_int size' 0 \<and> int i \<noteq> int (length fmt_list) - 1
          then Inl (FormatError (format_message str_of fmt))
          else check_loop str_of fmt_list (Suc i) rest)"

definition check :: "(descriptor \<Rightarrow> string) \<Rightarrow> descriptor list \<Rightarrow> error + bool" where
  "check str_of fmt_list = check_loop str_of fmt_list 0 fmt_list"

subsection \<open>Vocabulary of the properties\<close>

text \<open>
  A descriptor "has a size field equal to 0": the key is present and the value passes
  Python's \<^verbatim>\<open>size == 0\<close>.
\<close>

definition size_is_zero :: "descriptor \<Rightarrow> bool" where
  "size_is_zero fmt =
     (case map_of fmt ''size'' of None \<Rightarrow> False | Some v \<Rightarrow> py_eq_int v 0)"

text \<open>
  The loop of \<open>check_loop\<close> once more, equation for equation, returning beside the
  result the indices whose descriptors it has visited, in the order of the visits.
\<close>

fun visit_loop ::
  "(descriptor \<Rightarrow> string) \<Rightarrow> descriptor list \<Rightarrow> nat \<Rightarrow> descriptor list
     \<Rightarrow> (error + bool) \<times> nat list"
where
  "visit_loop str_of fmt_list i [] = (Inr True, [])"
| "visit_loop str_of fmt_list i (fmt # rest) =
     (case map_of fmt ''size'' of
        None \<Rightarrow>
          (case visit_loop str_of fmt_list (Suc i) rest of (r, visited) \<Rightarrow> (r, i # visited))
      | Some size' \<Rightarrow>
          if py_eq_int size' 0 \<and> int i \<noteq> int (length fmt_list) - 1
          then (Inl (FormatError (format_message str_of fmt)), [i])
          else
            (case visit_loop str_of fmt_list (Suc i) rest of (r, visited) \<Rightarrow> (r, i # visited)))"

definition check_visits ::
  "(descriptor \<Rightarrow> string) \<Rightarrow> descriptor list \<Rightarrow> (error + bool) \<times> nat list" where
  "check_visits str_of fmt_list = visit_loop str_of fmt_list 0 fmt_list"

text \<open>
  The message as the specification words it, for comparison with \<open>message_text\<close>.
\<close>

definition spec_message :: string where
  "spec_message = ''a variable-length (size 0) format must be the last format specified''"

subsection \<open>Zero among the floats\<close>

lemma unsigned_rat_nonneg: "(0 :: rat) \<le> unsigned (w :: 64 word)"
  by (metis linorder_linear of_nat_le_0_iff of_nat_unat semiring_1_class.of_nat_0)

lemma float_value_zero_fields:
  "float_value w = Some 0 \<longleftrightarrow> take_bit 11 (drop_bit 52 w) = 0 \<and> take_bit 52 w = 0"
proof -
  have "(0 :: rat) \<le> unsigned (take_bit 52 w)"
    by (rule unsigned_rat_nonneg)
  then have pos: "(4503599627370496 :: rat) + unsigned (take_bit 52 w) \<noteq> 0"
    by linarith
  show ?thesis
    using pos by (auto simp add: float_value_def Let_def unat_eq_0 unsigned_eq_0_iff)
qed

lemma fields_zero_iff:
  fixes w :: "64 word"
  shows "take_bit 11 (drop_bit 52 w) = 0 \<and> take_bit 52 w = 0 \<longleftrightarrow> take_bit 63 w = 0"
proof
  assume a: "take_bit 11 (drop_bit 52 w) = 0 \<and> take_bit 52 w = 0"
  show "take_bit 63 w = 0"
  proof (rule bit_eqI)
    fix n
    show "bit (take_bit 63 w) n = bit (0 :: 64 word) n"
    proof (cases "n < 52")
      case True
      from a have "bit (take_bit 52 w) n = False" by simp
      with True show ?thesis by (simp add: bit_take_bit_iff)
    next
      case False
      from a have "bit (take_bit 11 (drop_bit 52 w)) (n - 52) = False" by simp
      with False show ?thesis by (auto simp add: bit_take_bit_iff bit_drop_bit_eq)
    qed
  qed
next
  assume a: "take_bit 63 w = 0"
  have low: "\<And>n. n < 63 \<Longrightarrow> \<not> bit w n"
  proof -
    fix n :: nat assume "n < 63"
    moreover from a have "bit (take_bit 63 w) n = False" by simp
    ultimately show "\<not> bit w n" by (simp add: bit_take_bit_iff)
  qed
  show "take_bit 11 (drop_bit 52 w) = 0 \<and> take_bit 52 w = 0"
    by (auto intro!: bit_eqI simp add: bit_take_bit_iff bit_drop_bit_eq low)
qed

lemma take63_zero_iff:
  fixes w :: "64 word"
  shows "take_bit 63 w = 0 \<longleftrightarrow> w = 0 \<or> w = 0x8000000000000000"
proof
  assume a: "take_bit 63 w = 0"
  have "unat (take_bit 63 w) = unat w mod 2 ^ 63"
    by (metis take_bit_eq_mod unsigned_take_bit_eq)
  with a have m: "unat w mod 9223372036854775808 = 0" by simp
  have "unat w < 2 ^ 64"
    using unsigned_less [of w] by simp
  then have l: "unat w < 18446744073709551616" by simp
  from m l have "unat w = 0 \<or> unat w = 9223372036854775808"
    by (auto simp add: mod_eq_0_iff_dvd elim!: dvdE)
  then have "unat w = unat (0 :: 64 word) \<or> unat w = unat (0x8000000000000000 :: 64 word)"
    by simp
  then show "w = 0 \<or> w = 0x8000000000000000"
    by (simp only: word_unat_eq_iff [symmetric])
next
  assume "w = 0 \<or> w = 0x8000000000000000"
  then show "take_bit 63 w = 0" by auto
qed

text \<open>The decoding on three known doubles: \<open>1.0\<close>, \<open>-3.0\<close> and \<open>+inf\<close>.\<close>

lemma float_value_one: "float_value 0x3FF0000000000000 = Some 1"
  by (simp add: float_value_def take_bit_eq_mod drop_bit_eq_div)

lemma float_value_minus_three: "float_value 0xC008000000000000 = Some (- 3)"
  by (simp add: float_value_def take_bit_eq_mod drop_bit_eq_div)

lemma float_value_infinity: "float_value 0x7FF0000000000000 = None"
  by (simp add: float_value_def take_bit_eq_mod drop_bit_eq_div)

text \<open>The doubles that stand for the number 0 are \<open>+0.0\<close> and \<open>-0.0\<close>.\<close>

lemma float_value_zero_iff:
  "float_value w = Some 0 \<longleftrightarrow> w = 0 \<or> w = 0x8000000000000000"
  by (simp only: float_value_zero_fields fields_zero_iff take63_zero_iff)

lemma py_eq_int_zero_iff:
  "py_eq_int v 0 \<longleftrightarrow>
     v = PInt 0 \<or> v = PBool False \<or> v = PFloat 0 \<or> v = PFloat 0x8000000000000000"
  by (cases v) (auto simp add: py_eq_int_def float_value_zero_iff)

subsection \<open>The loop, one descriptor at a time\<close>

lemma check_loop_Cons:
  "check_loop s L i (fmt # rest) =
     (if size_is_zero fmt \<and> Suc i \<noteq> length L
      then Inl (FormatError (format_message s fmt))
      else check_loop s L (Suc i) rest)"
  by (auto simp add: size_is_zero_def split: option.split)

lemma check_loop_ok_iff:
  "check_loop s L i fmts = Inr True \<longleftrightarrow>
     (\<forall>j<length fmts. size_is_zero (fmts ! j) \<longrightarrow> Suc (i + j) = length L)"
proof (induction fmts arbitrary: i)
  case Nil
  show ?case by simp
next
  case (Cons fmt rest)
  let ?P = "\<lambda>j. size_is_zero ((fmt # rest) ! j) \<longrightarrow> Suc (i + j) = length L"
  have "(\<forall>j<length (fmt # rest). ?P j) \<longleftrightarrow> ?P 0 \<and> (\<forall>j<length rest. ?P (Suc j))"
    by (auto simp add: less_Suc_eq_0_disj)
  also have "\<dots> \<longleftrightarrow> (size_is_zero fmt \<longrightarrow> Suc i = length L) \<and>
      check_loop s L (Suc i) rest = Inr True"
    by (simp add: Cons.IH)
  also have "\<dots> \<longleftrightarrow> check_loop s L i (fmt # rest) = Inr True"
    by (auto simp add: check_loop_Cons simp del: check_loop.simps)
  finally show ?case by simp
qed

lemma check_loop_result:
  "check_loop s L i fmts = Inr True \<or>
   (\<exists>fmt\<in>set fmts. size_is_zero fmt \<and>
      check_loop s L i fmts = Inl (FormatError (format_message s fmt)))"
  by (induction fmts arbitrary: i)
     (auto simp add: check_loop_Cons simp del: check_loop.simps(2))

lemma check_loop_first:
  "k < length fmts \<Longrightarrow> size_is_zero (fmts ! k) \<Longrightarrow> Suc (i + k) \<noteq> length L \<Longrightarrow>
   \<forall>j<k. \<not> (size_is_zero (fmts ! j) \<and> Suc (i + j) \<noteq> length L) \<Longrightarrow>
   check_loop s L i fmts = Inl (FormatError (format_message s (fmts ! k)))"
proof (induction fmts arbitrary: i k)
  case Nil
  then show ?case by simp
next
  case (Cons fmt rest)
  show ?case
  proof (cases k)
    case 0
    with Cons.prems show ?thesis by (simp add: check_loop_Cons del: check_loop.simps)
  next
    case (Suc k')
    from Cons.prems(4) Suc have h0: "\<not> (size_is_zero fmt \<and> Suc i \<noteq> length L)"
      by fastforce
    from Cons.prems(4) Suc
    have h1: "\<forall>j<k'. \<not> (size_is_zero (rest ! j) \<and> Suc (Suc i + j) \<noteq> length L)"
      by fastforce
    have "check_loop s L (Suc i) rest = Inl (FormatError (format_message s (rest ! k')))"
      using Cons.prems(1,2,3) Suc h1 by (intro Cons.IH) auto
    with h0 Suc show ?thesis by (auto simp add: check_loop_Cons simp del: check_loop.simps)
  qed
qed

lemma check_loop_append:
  "check_loop s L i (xs @ ys) =
     (case check_loop s L i xs of
        Inl e \<Rightarrow> Inl e
      | Inr ok \<Rightarrow> check_loop s L (i + length xs) ys)"
  by (induction xs arbitrary: i)
     (auto simp add: check_loop_Cons simp del: check_loop.simps(2) split: sum.split)

lemma check_ok_iff:
  "check s L = Inr True \<longleftrightarrow> (\<forall>j<length L. size_is_zero (L ! j) \<longrightarrow> j = length L - 1)"
proof -
  have "\<And>j. j < length L \<Longrightarrow> (Suc j = length L) = (j = length L - 1)"
    by auto
  then show ?thesis
    by (auto simp add: check_def check_loop_ok_iff)
qed

lemma check_loop_length_only:
  "length L = length L' \<Longrightarrow> check_loop s L i fmts = check_loop s L' i fmts"
  by (induction fmts arbitrary: i) (simp_all add: check_loop_Cons del: check_loop.simps(2))

lemma visit_loop_fst: "fst (visit_loop s L i fmts) = check_loop s L i fmts"
  by (induction fmts arbitrary: i) (simp_all add: case_prod_beta split: option.split)

lemma visit_loop_snd: "\<exists>k\<le>length fmts. snd (visit_loop s L i fmts) = [i..<i + k]"
proof (induction fmts arbitrary: i)
  case Nil
  show ?case by simp
next
  case (Cons fmt rest)
  from Cons.IH [of "Suc i"] obtain k
    where k: "k \<le> length rest" "snd (visit_loop s L (Suc i) rest) = [Suc i..<Suc i + k]"
    by blast
  have one: "[i] = [i..<i + Suc 0]" by simp
  have more: "i # [Suc i..<Suc i + k] = [i..<i + Suc k]"
    by (simp add: upt_conv_Cons)
  show ?case
  proof (cases "size_is_zero fmt \<and> Suc i \<noteq> length L")
    case True
    then have "snd (visit_loop s L i (fmt # rest)) = [i]"
      by (auto simp add: size_is_zero_def split: option.splits)
    with one have "snd (visit_loop s L i (fmt # rest)) = [i..<i + Suc 0]" by simp
    moreover have "Suc 0 \<le> length (fmt # rest)" by simp
    ultimately show ?thesis by blast
  next
    case False
    then have "snd (visit_loop s L i (fmt # rest)) = i # snd (visit_loop s L (Suc i) rest)"
      by (auto simp add: size_is_zero_def split: option.splits prod.splits)
    with k(2) more have "snd (visit_loop s L i (fmt # rest)) = [i..<i + Suc k]" by simp
    moreover from k(1) have "Suc k \<le> length (fmt # rest)" by simp
    ultimately show ?thesis by blast
  qed
qed

lemma visit_loop_Cons:
  "visit_loop s L i (fmt # rest) =
     (if size_is_zero fmt \<and> Suc i \<noteq> length L
      then (Inl (FormatError (format_message s fmt)), [i])
      else (case visit_loop s L (Suc i) rest of (r, visited) \<Rightarrow> (r, i # visited)))"
  by (auto simp add: size_is_zero_def split: option.split)

lemma visit_loop_first:
  "k < length fmts \<Longrightarrow> size_is_zero (fmts ! k) \<Longrightarrow> Suc (i + k) \<noteq> length L \<Longrightarrow>
   \<forall>j<k. \<not> (size_is_zero (fmts ! j) \<and> Suc (i + j) \<noteq> length L) \<Longrightarrow>
   snd (visit_loop s L i fmts) = [i..<Suc (i + k)]"
proof (induction fmts arbitrary: i k)
  case Nil
  then show ?case by simp
next
  case (Cons fmt rest)
  show ?case
  proof (cases k)
    case 0
    with Cons.prems show ?thesis by (simp add: visit_loop_Cons del: visit_loop.simps)
  next
    case (Suc k')
    from Cons.prems(4) Suc have h0: "\<not> (size_is_zero fmt \<and> Suc i \<noteq> length L)"
      by fastforce
    from Cons.prems(4) Suc
    have h1: "\<forall>j<k'. \<not> (size_is_zero (rest ! j) \<and> Suc (Suc i + j) \<noteq> length L)"
      by fastforce
    have "snd (visit_loop s L (Suc i) rest) = [Suc i..<Suc (Suc i + k')]"
      using Cons.prems(1,2,3) Suc h1 by (intro Cons.IH) auto
    with h0 Suc show ?thesis
      by (auto simp add: visit_loop_Cons case_prod_beta upt_conv_Cons simp del: visit_loop.simps)
  qed
qed

lemma check_least_offending:
  assumes "\<exists>k<length L. size_is_zero (L ! k) \<and> k \<noteq> length L - 1"
  shows "\<exists>i<length L.
           size_is_zero (L ! i) \<and> i \<noteq> length L - 1 \<and>
           (\<forall>j<i. \<not> size_is_zero (L ! j)) \<and>
           check s L = Inl (FormatError (format_message s (L ! i)))"
proof -
  define P where "P k \<longleftrightarrow> k < length L \<and> size_is_zero (L ! k) \<and> k \<noteq> length L - 1" for k
  define i where "i = (LEAST k. P k)"
  from assms have "\<exists>k. P k" by (auto simp add: P_def)
  then have Pi: "P i" unfolding i_def by (rule LeastI_ex)
  have before: "\<not> size_is_zero (L ! j)" if "j < i" for j
  proof -
    from that have "\<not> P j" unfolding i_def by (rule not_less_Least)
    moreover from that Pi have "j < length L" "j \<noteq> length L - 1"
      by (auto simp add: P_def)
    ultimately show ?thesis by (simp add: P_def)
  qed
  from Pi have i: "i < length L" "size_is_zero (L ! i)" "Suc i \<noteq> length L"
    by (auto simp add: P_def)
  have "check s L = Inl (FormatError (format_message s (L ! i)))"
    unfolding check_def using i before by (intro check_loop_first) auto
  with Pi before show ?thesis
    by (auto simp add: P_def)
qed

subsection \<open>Properties\<close>

text \<open>
  C8. A list of exactly one descriptor is accepted whatever the descriptor holds: its
  index 0 is the last index, so the size test can never raise.
\<close>

theorem check_singleton: "check str_of [fmt] = Inr True"
  by (simp add: check_def split: option.split)

text \<open>
  C1. \<open>check\<close> returns \<open>True\<close> exactly when no descriptor whose size equals 0 stands at
  an index other than the last one; on every other list it raises a \<open>FormatError\<close>
  (built from one of the list's size-0 descriptors) instead of returning.
\<close>

theorem check_true_iff:
  "(check str_of fmt_list = Inr True \<longleftrightarrow>
      (\<forall>i<length fmt_list. size_is_zero (fmt_list ! i) \<longrightarrow> i = length fmt_list - 1)) \<and>
   (check str_of fmt_list \<noteq> Inr True \<longrightarrow>
      (\<exists>fmt\<in>set fmt_list. size_is_zero fmt \<and>
         check str_of fmt_list = Inl (FormatError (format_message str_of fmt))))"
proof
  show "check str_of fmt_list = Inr True \<longleftrightarrow>
      (\<forall>i<length fmt_list. size_is_zero (fmt_list ! i) \<longrightarrow> i = length fmt_list - 1)"
    by (rule check_ok_iff)
next
  show "check str_of fmt_list \<noteq> Inr True \<longrightarrow>
      (\<exists>fmt\<in>set fmt_list. size_is_zero fmt \<and>
         check str_of fmt_list = Inl (FormatError (format_message str_of fmt)))"
    using check_loop_result [of str_of fmt_list 0 fmt_list] unfolding check_def by blast
qed

text \<open>
  The empty list and a list whose only size-0 descriptor is the last one are accepted;
  a list with the size-0 descriptor first is not.
\<close>

theorem check_true_iff_witness:
  "\<forall>str_of.
     check str_of [] = Inr True \<and>
     check str_of [[(''size'', PInt 4)], [(''size'', PInt 0)]] = Inr True \<and>
     check str_of [[(''size'', PInt 0)], [(''size'', PInt 4)]] \<noteq> Inr True"
proof (intro allI conjI)
  fix str_of :: "descriptor \<Rightarrow> string"
  show "check str_of [] = Inr True"
    using check_true_iff [of str_of "[]"] by simp
  show "check str_of [[(''size'', PInt 4)], [(''size'', PInt 0)]] = Inr True"
    using check_true_iff [of str_of "[[(''size'', PInt 4)], [(''size'', PInt 0)]]"]
    by (auto simp add: less_Suc_eq size_is_zero_def py_eq_int_def)
  show "check str_of [[(''size'', PInt 0)], [(''size'', PInt 4)]] \<noteq> Inr True"
    using check_true_iff [of str_of "[[(''size'', PInt 0)], [(''size'', PInt 4)]]"]
    by (auto simp add: size_is_zero_def py_eq_int_def)
qed

text \<open>
  C4. On a list that \<open>check\<close> accepts, at most one descriptor has size 0, and a
  descriptor with size 0 can only be the last element.
\<close>

theorem check_true_at_most_one:
  assumes "check str_of fmt_list = Inr True"
  shows "length (filter size_is_zero fmt_list) \<le> 1 \<and>
         (\<forall>i<length fmt_list. size_is_zero (fmt_list ! i) \<longrightarrow> i = length fmt_list - 1)"
proof
  from assms
  have idx: "\<forall>i<length fmt_list. size_is_zero (fmt_list ! i) \<longrightarrow> i = length fmt_list - 1"
    by (simp only: check_ok_iff)
  then show "\<forall>i<length fmt_list. size_is_zero (fmt_list ! i) \<longrightarrow> i = length fmt_list - 1" .
  show "length (filter size_is_zero fmt_list) \<le> 1"
  proof (cases fmt_list rule: rev_cases)
    case Nil
    then show ?thesis by simp
  next
    case (snoc xs x)
    have "\<not> size_is_zero y" if "y \<in> set xs" for y
    proof
      assume z: "size_is_zero y"
      from that obtain j where j: "j < length xs" "xs ! j = y"
        by (auto simp add: in_set_conv_nth)
      with snoc have "fmt_list ! j = y" "j < length fmt_list"
        by (simp_all add: nth_append)
      with idx z have "j = length fmt_list - 1" by blast
      with snoc j show False by simp
    qed
    then have "filter size_is_zero xs = []"
      by (simp add: filter_empty_conv)
    with snoc show ?thesis by simp
  qed
qed

theorem check_true_at_most_one_witness:
  "\<forall>str_of.
     check str_of [[(''name'', PStr ''a'')], [(''size'', PInt 4)], [(''size'', PInt 0)]] = Inr True \<and>
     length (filter size_is_zero
       [[(''name'', PStr ''a'')], [(''size'', PInt 4)], [(''size'', PInt 0)]]) \<le> 1"
proof (intro allI)
  fix str_of :: "descriptor \<Rightarrow> string"
  let ?L = "[[(''name'', PStr ''a'')], [(''size'', PInt 4)], [(''size'', PInt 0)]]"
  have ok: "check str_of ?L = Inr True"
    by (simp add: check_def py_eq_int_def)
  from check_true_at_most_one [OF ok] ok
  show "check str_of ?L = Inr True \<and> length (filter size_is_zero ?L) \<le> 1"
    by blast
qed

text \<open>
  C9. Acceptance is closed under prefixes: when \<open>check\<close> returns \<open>True\<close> on a list, it
  returns \<open>True\<close> on every prefix of the list.
\<close>

theorem check_prefix_closed:
  assumes "prefix xs fmt_list" and "check str_of fmt_list = Inr True"
  shows "check str_of xs = Inr True"
proof -
  from assms(1) obtain ys where L: "fmt_list = xs @ ys"
    by (auto simp add: prefix_def)
  from assms(2)
  have idx: "\<forall>i<length fmt_list. size_is_zero (fmt_list ! i) \<longrightarrow> i = length fmt_list - 1"
    by (simp only: check_ok_iff)
  have "j = length xs - 1" if "j < length xs" "size_is_zero (xs ! j)" for j
  proof -
    from that L have "j < length fmt_list" "size_is_zero (fmt_list ! j)"
      by (simp_all add: nth_append)
    with idx have "j = length fmt_list - 1" by blast
    with that(1) L show ?thesis by simp
  qed
  then show ?thesis
    by (simp add: check_ok_iff)
qed

theorem check_prefix_closed_witness:
  "\<forall>str_of.
     prefix [[(''size'', PInt 4)]] [[(''size'', PInt 4)], [(''size'', PInt 0)]] \<and>
     check str_of [[(''size'', PInt 4)], [(''size'', PInt 0)]] = Inr True \<and>
     check str_of [[(''size'', PInt 4)]] = Inr True"
proof (intro allI)
  fix str_of :: "descriptor \<Rightarrow> string"
  let ?L = "[[(''size'', PInt 4)], [(''size'', PInt 0)]]"
  have p: "prefix [[(''size'', PInt 4)]] ?L" by simp
  have ok: "check str_of ?L = Inr True"
    by (simp add: check_def py_eq_int_def)
  from check_prefix_closed [OF p ok] p ok
  show "prefix [[(''size'', PInt 4)]] ?L \<and> check str_of ?L = Inr True \<and>
        check str_of [[(''size'', PInt 4)]] = Inr True"
    by blast
qed

text \<open>
  C10. Whether \<open>check\<close> accepts depends on the size fields alone: two lists of the same
  length whose descriptors agree, index by index, on the \<^verbatim>\<open>size\<close> entry (both without
  one, or both with the same value) are both accepted or both rejected, whatever else
  the descriptors hold and however they are rendered.
\<close>

theorem check_depends_on_sizes:
  assumes "list_all2 (\<lambda>a b. map_of a ''size'' = map_of b ''size'') xs ys"
  shows "check str_of xs = Inr True \<longleftrightarrow> check str_of' ys = Inr True"
proof -
  from assms have len: "length xs = length ys"
    by (rule list_all2_lengthD)
  have "size_is_zero (xs ! j) = size_is_zero (ys ! j)" if "j < length xs" for j
    using list_all2_nthD [OF assms that] by (simp add: size_is_zero_def)
  with len show ?thesis
    by (auto simp add: check_ok_iff)
qed

theorem check_depends_on_sizes_witness:
  "\<forall>str_of str_of'.
     list_all2 (\<lambda>a b. map_of a ''size'' = map_of b ''size'')
       [[(''size'', PInt 0), (''name'', PStr ''a'')], [(''name'', PStr ''b'')]]
       [[(''id'', PInt 7), (''size'', PInt 0)], []] \<and>
     (check str_of [[(''size'', PInt 0), (''name'', PStr ''a'')], [(''name'', PStr ''b'')]] = Inr True)
       = (check str_of' [[(''id'', PInt 7), (''size'', PInt 0)], []] = Inr True)"
proof (intro allI)
  fix str_of str_of' :: "descriptor \<Rightarrow> string"
  let ?xs = "[[(''size'', PInt 0), (''name'', PStr ''a'')], [(''name'', PStr ''b'')]]"
  let ?ys = "[[(''id'', PInt 7), (''size'', PInt 0)], []]"
  have r: "list_all2 (\<lambda>a b. map_of a ''size'' = map_of b ''size'') ?xs ?ys"
    by simp
  from check_depends_on_sizes [OF r, of str_of str_of'] r
  show "list_all2 (\<lambda>a b. map_of a ''size'' = map_of b ''size'') ?xs ?ys \<and>
        (check str_of ?xs = Inr True) = (check str_of' ?ys = Inr True)"
    by blast
qed

text \<open>
  C7. \<open>check\<close> is a total function defined by recursion over the list, so it returns
  on every list. The instrumented loop computes the same result and visits the indices
  \<open>0, 1, ..., k - 1\<close> for some \<open>k\<close> up to the length of the list: every descriptor at
  most once, in order.
\<close>

theorem check_visits_bounded:
  "fst (check_visits str_of fmt_list) = check str_of fmt_list \<and>
   (\<exists>k\<le>length fmt_list. snd (check_visits str_of fmt_list) = [0..<k])"
  using visit_loop_snd [of fmt_list str_of fmt_list 0]
  by (simp add: check_visits_def check_def visit_loop_fst)

text \<open>
  C2. When some descriptor with size 0 stands at an index other than the last, \<open>check\<close>
  raises one error, whose message is the text of the source's literal followed by the
  \<^verbatim>\<open>%s\<close> rendering of the descriptor at the lowest such index \<open>i\<close> (no descriptor
  before it has size 0). The scan stops there: it has visited the indices \<open>0\<close> to \<open>i\<close>
  and no other, and the descriptors after index \<open>i\<close> are never read, so that replacing
  them by any other non-empty continuation gives the same error.
\<close>

theorem check_raises_at_first:
  assumes "\<exists>k<length fmt_list. size_is_zero (fmt_list ! k) \<and> k \<noteq> length fmt_list - 1"
  shows "\<exists>i<length fmt_list.
           size_is_zero (fmt_list ! i) \<and> i \<noteq> length fmt_list - 1 \<and>
           (\<forall>j<i. \<not> size_is_zero (fmt_list ! j)) \<and>
           check str_of fmt_list =
             Inl (FormatError
                    (''    variable-length (size 0) property must be the last format\<newline>    specified but is not\<newline>    fmt: '' @
                     str_of (fmt_list ! i))) \<and>
           snd (check_visits str_of fmt_list) = [0..<Suc i] \<and>
           (\<forall>rest. rest \<noteq> [] \<longrightarrow>
              check str_of (take (Suc i) fmt_list @ rest) = check str_of fmt_list)"
proof -
  from check_least_offending [OF assms, of str_of] obtain i
    where i: "i < length fmt_list" "size_is_zero (fmt_list ! i)" "i \<noteq> length fmt_list - 1"
      and before: "\<forall>j<i. \<not> size_is_zero (fmt_list ! j)"
      and raised: "check str_of fmt_list = Inl (FormatError (format_message str_of (fmt_list ! i)))"
    by blast
  have cut: "check str_of (take (Suc i) fmt_list @ rest) = check str_of fmt_list"
    if "rest \<noteq> []" for rest
  proof -
    let ?L = "take (Suc i) fmt_list @ rest"
    from i(1) have same: "?L ! j = fmt_list ! j" if "j \<le> i" for j
      using that by (simp add: nth_append)
    from i(1) that have len: "i < length ?L" "Suc (0 + i) \<noteq> length ?L"
      by auto
    have "check_loop str_of ?L 0 ?L = Inl (FormatError (format_message str_of (?L ! i)))"
    proof (rule check_loop_first)
      show "i < length ?L" by (rule len(1))
      show "size_is_zero (?L ! i)" using i(2) same [of i] by simp
      show "Suc (0 + i) \<noteq> length ?L" by (rule len(2))
      show "\<forall>j<i. \<not> (size_is_zero (?L ! j) \<and> Suc (0 + j) \<noteq> length ?L)"
        using before same by simp
    qed
    with raised same [of i] show ?thesis by (simp add: check_def)
  qed
  have visited: "snd (check_visits str_of fmt_list) = [0..<Suc i]"
    unfolding check_visits_def
    using i before visit_loop_first [of i fmt_list 0 fmt_list str_of] by auto
  from raised have written: "check str_of fmt_list =
      Inl (FormatError
             (''    variable-length (size 0) property must be the last format\<newline>    specified but is not\<newline>    fmt: '' @
              str_of (fmt_list ! i)))"
    by (simp only: format_message_def message_text_def)
  from i before written visited cut show ?thesis
    by blast
qed

text \<open>
  Two descriptors with size 0 before the last index: the message ends with the
  rendering of the first, and only index 0 has been visited.
\<close>

theorem check_raises_at_first_witness:
  "\<forall>str_of.
     (\<exists>k<length [[(''size'', PInt 0), (''name'', PStr ''a'')],
                  [(''size'', PInt 0), (''name'', PStr ''b'')], [(''size'', PInt 4)]].
        size_is_zero ([[(''size'', PInt 0), (''name'', PStr ''a'')],
                  [(''size'', PInt 0), (''name'', PStr ''b'')], [(''size'', PInt 4)]] ! k) \<and>
        k \<noteq> length [[(''size'', PInt 0), (''name'', PStr ''a'')],
                  [(''size'', PInt 0), (''name'', PStr ''b'')], [(''size'', PInt 4)]] - 1) \<and>
     check str_of [[(''size'', PInt 0), (''name'', PStr ''a'')],
                  [(''size'', PInt 0), (''name'', PStr ''b'')], [(''size'', PInt 4)]] =
       Inl (FormatError
              (''    variable-length (size 0) property must be the last format\<newline>    specified but is not\<newline>    fmt: '' @
               str_of [(''size'', PInt 0), (''name'', PStr ''a'')])) \<and>
     snd (check_visits str_of [[(''size'', PInt 0), (''name'', PStr ''a'')],
                  [(''size'', PInt 0), (''name'', PStr ''b'')], [(''size'', PInt 4)]]) = [0]"
proof (intro allI)
  fix str_of :: "descriptor \<Rightarrow> string"
  let ?L = "[[(''size'', PInt 0), (''name'', PStr ''a'')],
             [(''size'', PInt 0), (''name'', PStr ''b'')], [(''size'', PInt 4)]]"
  have z0: "size_is_zero (?L ! 0)"
    by (simp add: size_is_zero_def py_eq_int_def)
  then have hyp: "\<exists>k<length ?L. size_is_zero (?L ! k) \<and> k \<noteq> length ?L - 1"
    by (intro exI [of _ 0]) simp
  from check_raises_at_first [OF hyp, of str_of] obtain i
    where i: "\<forall>j<i. \<not> size_is_zero (?L ! j)"
      "check str_of ?L =
         Inl (FormatError
                (''    variable-length (size 0) property must be the last format\<newline>    specified but is not\<newline>    fmt: '' @
                 str_of (?L ! i)))"
      "snd (check_visits str_of ?L) = [0..<Suc i]"
    by blast
  from i(1) z0 have "i = 0" by (cases i) auto
  with i(2,3) have "check str_of ?L =
      Inl (FormatError
             (''    variable-length (size 0) property must be the last format\<newline>    specified but is not\<newline>    fmt: '' @
              str_of [(''size'', PInt 0), (''name'', PStr ''a'')]))"
    "snd (check_visits str_of ?L) = [0]"
    by simp_all
  with hyp show "(\<exists>k<length ?L. size_is_zero (?L ! k) \<and> k \<noteq> length ?L - 1) \<and>
      check str_of ?L =
        Inl (FormatError
               (''    variable-length (size 0) property must be the last format\<newline>    specified but is not\<newline>    fmt: '' @
                str_of [(''size'', PInt 0), (''name'', PStr ''a'')])) \<and>
      snd (check_visits str_of ?L) = [0]"
    by blast
qed

text \<open>
  C3, as the code has it. Whenever \<open>check\<close> fails, the error is a \<open>FormatError\<close> whose
  one payload is a message string: the fixed text of the source's literal, followed by
  the \<^verbatim>\<open>%s\<close> rendering of the offending descriptor, which has size 0 and does not
  stand at the last index. The descriptor is in the error as that text only.
\<close>

theorem check_error_message:
  assumes "check str_of fmt_list = Inl e"
  shows "\<exists>i<length fmt_list.
           size_is_zero (fmt_list ! i) \<and> i \<noteq> length fmt_list - 1 \<and>
           e = FormatError
                 (''    variable-length (size 0) property must be the last format\<newline>    specified but is not\<newline>    fmt: '' @
                  str_of (fmt_list ! i))"
proof -
  from assms have "check str_of fmt_list \<noteq> Inr True" by simp
  then have "\<exists>k<length fmt_list. size_is_zero (fmt_list ! k) \<and> k \<noteq> length fmt_list - 1"
    by (auto simp add: check_ok_iff)
  from check_least_offending [OF this, of str_of] assms show ?thesis
    by (auto simp add: format_message_def message_text_def)
qed

theorem check_error_message_witness:
  "\<forall>str_of.
     check str_of [[(''size'', PInt 0)], [(''size'', PInt 4)]] =
       Inl (FormatError
              (''    variable-length (size 0) property must be the last format\<newline>    specified but is not\<newline>    fmt: '' @
               str_of [(''size'', PInt 0)]))"
proof (intro allI)
  fix str_of :: "descriptor \<Rightarrow> string"
  let ?L = "[[(''size'', PInt 0)], [(''size'', PInt 4)]]"
  have failed: "check str_of ?L = Inl (FormatError (format_message str_of [(''size'', PInt 0)]))"
    by (simp add: check_def py_eq_int_def)
  from check_error_message [OF failed] obtain i
    where "i < length ?L" "i \<noteq> length ?L - 1"
      "FormatError (format_message str_of [(''size'', PInt 0)]) =
         FormatError
           (''    variable-length (size 0) property must be the last format\<newline>    specified but is not\<newline>    fmt: '' @
            str_of (?L ! i))"
    by blast
  moreover from this(1,2) have "i = 0" by simp
  ultimately show "check str_of ?L =
      Inl (FormatError
             (''    variable-length (size 0) property must be the last format\<newline>    specified but is not\<newline>    fmt: '' @
              str_of [(''size'', PInt 0)]))"
    using failed by simp
qed

text \<open>
  C3, as the specification has it, fails. On \<^verbatim>\<open>[{'size': 0}, {'size': 4}]\<close> the message
  is the source's literal followed by the rendering of the first descriptor, whatever
  \<^verbatim>\<open>str\<close> renders it as; the message of the specification occurs nowhere in that
  literal, nor in the whole message once the descriptor is rendered as Python does.
\<close>

theorem check_error_message_counterexample:
  "(\<forall>str_of.
      check str_of [[(''size'', PInt 0)], [(''size'', PInt 4)]] =
        Inl (FormatError
               (''    variable-length (size 0) property must be the last format\<newline>    specified but is not\<newline>    fmt: '' @
                str_of [(''size'', PInt 0)]))) \<and>
   \<not> sublist spec_message
       (''    variable-length (size 0) property must be the last format\<newline>    specified but is not\<newline>    fmt: '' @
        ''{'size': 0}'')"
proof (intro conjI allI)
  fix str_of :: "descriptor \<Rightarrow> string"
  show "check str_of [[(''size'', PInt 0)], [(''size'', PInt 4)]] =
        Inl (FormatError
               (''    variable-length (size 0) property must be the last format\<newline>    specified but is not\<newline>    fmt: '' @
                str_of [(''size'', PInt 0)]))"
    by (simp add: check_def py_eq_int_def format_message_def message_text_def)
next
  show "\<not> sublist spec_message
       (''    variable-length (size 0) property must be the last format\<newline>    specified but is not\<newline>    fmt: '' @
        ''{'size': 0}'')"
    unfolding spec_message_def by code_simp
qed

text \<open>
  C5. A descriptor without a \<^verbatim>\<open>size\<close> key raises nothing, wherever it stands: the scan
  of the list is the scan of what precedes it, continued at the next index with what
  follows it. Its content does not matter (any other descriptor without the key gives
  the same result), and when no other descriptor has the key either the list is accepted.
\<close>

theorem check_skips_sizeless:
  assumes "map_of fmt ''size'' = None"
  shows "check str_of (xs @ fmt # ys) =
           (case check_loop str_of (xs @ fmt # ys) 0 xs of
              Inl e \<Rightarrow> Inl e
            | Inr ok \<Rightarrow> check_loop str_of (xs @ fmt # ys) (Suc (length xs)) ys) \<and>
         (\<forall>fmt'. map_of fmt' ''size'' = None \<longrightarrow>
            check str_of (xs @ fmt' # ys) = check str_of (xs @ fmt # ys)) \<and>
         ((\<forall>d\<in>set (xs @ ys). map_of d ''size'' = None) \<longrightarrow>
            check str_of (xs @ fmt # ys) = Inr True)"
proof (intro conjI allI impI)
  let ?L = "xs @ fmt # ys"
  show first: "check str_of ?L =
      (case check_loop str_of ?L 0 xs of
         Inl e \<Rightarrow> Inl e
       | Inr ok \<Rightarrow> check_loop str_of ?L (Suc (length xs)) ys)"
    using assms by (simp add: check_def check_loop_append [of _ _ 0 xs] split: sum.split)
  show "check str_of (xs @ fmt' # ys) = check str_of ?L"
    if other: "map_of fmt' ''size'' = None" for fmt'
  proof -
    let ?L' = "xs @ fmt' # ys"
    have len: "length ?L' = length ?L" by simp
    have "check str_of ?L' =
      (case check_loop str_of ?L' 0 xs of
         Inl e \<Rightarrow> Inl e
       | Inr ok \<Rightarrow> check_loop str_of ?L' (Suc (length xs)) ys)"
      using other by (simp add: check_def check_loop_append [of _ _ 0 xs] split: sum.split)
    also have "\<dots> =
      (case check_loop str_of ?L 0 xs of
         Inl e \<Rightarrow> Inl e
       | Inr ok \<Rightarrow> check_loop str_of ?L (Suc (length xs)) ys)"
      by (simp only: check_loop_length_only [OF len])
    finally show ?thesis using first by simp
  qed
  show "check str_of ?L = Inr True" if none: "\<forall>d\<in>set (xs @ ys). map_of d ''size'' = None"
  proof -
    from none assms have "\<forall>d\<in>set ?L. \<not> size_is_zero d"
      by (auto simp add: size_is_zero_def)
    then have "\<forall>j<length ?L. \<not> size_is_zero (?L ! j)"
      using nth_mem by blast
    then show ?thesis by (simp only: check_ok_iff) blast
  qed
qed

text \<open>
  A descriptor without the key between a fixed-size one and a final size-0 one, and
  one after a size-0 descriptor: the first list is accepted, in the second the error
  is the one of the size-0 descriptor, now no longer last.
\<close>

theorem check_skips_sizeless_witness:
  "\<forall>str_of.
     map_of [(''name'', PStr ''a'')] ''size'' = None \<and>
     check str_of [[(''size'', PInt 4)], [(''name'', PStr ''a'')], [(''size'', PInt 0)]] = Inr True \<and>
     check str_of [[(''size'', PInt 0)], [(''name'', PStr ''a'')]] =
       Inl (FormatError (format_message str_of [(''size'', PInt 0)]))"
proof (intro allI)
  fix str_of :: "descriptor \<Rightarrow> string"
  have none: "map_of [(''name'', PStr ''a'')] ''size'' = None" by simp
  have a: "check str_of [[(''size'', PInt 4)], [(''name'', PStr ''a'')], [(''size'', PInt 0)]] = Inr True"
    using check_skips_sizeless [OF none, of str_of "[[(''size'', PInt 4)]]" "[[(''size'', PInt 0)]]"]
    by (simp add: py_eq_int_def)
  have b: "check str_of [[(''size'', PInt 0)], [(''name'', PStr ''a'')]] =
       Inl (FormatError (format_message str_of [(''size'', PInt 0)]))"
    using check_skips_sizeless [OF none, of str_of "[[(''size'', PInt 0)]]" "[]"]
    by (simp add: py_eq_int_def)
  from none a b show "map_of [(''name'', PStr ''a'')] ''size'' = None \<and>
     check str_of [[(''size'', PInt 4)], [(''name'', PStr ''a'')], [(''size'', PInt 0)]] = Inr True \<and>
     check str_of [[(''size'', PInt 0)], [(''name'', PStr ''a'')]] =
       Inl (FormatError (format_message str_of [(''size'', PInt 0)]))"
    by blast
qed

text \<open>
  C6. A descriptor whose \<^verbatim>\<open>size\<close> key is present raises exactly when the value is a
  number equal to 0 and the descriptor is not the last one. Under Python's \<^verbatim>\<open>==\<close> the
  values numerically equal to 0 are the integer \<open>0\<close>, \<^verbatim>\<open>False\<close> (a \<^verbatim>\<open>bool\<close> is an
  \<^verbatim>\<open>int\<close>) and the floats \<open>0.0\<close> and \<open>-0.0\<close>; \<^verbatim>\<open>None\<close>, strings, lists and
  dictionaries, empty or not, are not among them.
\<close>

theorem check_size_triggers:
  assumes "map_of fmt ''size'' = Some v"
  shows "check str_of (xs @ fmt # ys) =
           (case check_loop str_of (xs @ fmt # ys) 0 xs of
              Inl e \<Rightarrow> Inl e
            | Inr ok \<Rightarrow>
                if py_num v = Some 0 \<and> ys \<noteq> []
                then Inl (FormatError (format_message str_of fmt))
                else check_loop str_of (xs @ fmt # ys) (Suc (length xs)) ys) \<and>
         (py_num v = Some 0 \<longleftrightarrow>
            v = PInt 0 \<or> v = PBool False \<or> v = PFloat 0 \<or> v = PFloat 0x8000000000000000)"
proof
  have last: "int (length xs) = int (length (xs @ fmt # ys)) - 1 \<longleftrightarrow> ys = []"
    by simp
  show "check str_of (xs @ fmt # ys) =
           (case check_loop str_of (xs @ fmt # ys) 0 xs of
              Inl e \<Rightarrow> Inl e
            | Inr ok \<Rightarrow>
                if py_num v = Some 0 \<and> ys \<noteq> []
                then Inl (FormatError (format_message str_of fmt))
                else check_loop str_of (xs @ fmt # ys) (Suc (length xs)) ys)"
    using assms last
    by (simp add: check_def check_loop_append [of _ _ 0 xs] py_eq_int_def split: sum.split)
next
  show "py_num v = Some 0 \<longleftrightarrow>
      v = PInt 0 \<or> v = PBool False \<or> v = PFloat 0 \<or> v = PFloat 0x8000000000000000"
    using py_eq_int_zero_iff [of v] by (simp add: py_eq_int_def)
qed

text \<open>
  Before a descriptor without the key: \<^verbatim>\<open>None\<close>, the empty string, the empty list and
  the integer 4 as size raise nothing; \<open>0\<close>, \<^verbatim>\<open>False\<close>, \<open>0.0\<close> and \<open>-0.0\<close> raise.
\<close>

theorem check_size_triggers_witness:
  "\<forall>str_of.
     check str_of [[(''size'', PNone)], []] = Inr True \<and>
     check str_of [[(''size'', PStr [])], []] = Inr True \<and>
     check str_of [[(''size'', PList [])], []] = Inr True \<and>
     check str_of [[(''size'', PInt 4)], []] = Inr True \<and>
     check str_of [[(''size'', PInt 0)], []] =
       Inl (FormatError (format_message str_of [(''size'', PInt 0)])) \<and>
     check str_of [[(''size'', PBool False)], []] =
       Inl (FormatError (format_message str_of [(''size'', PBool False)])) \<and>
     check str_of [[(''size'', PFloat 0)], []] =
       Inl (FormatError (format_message str_of [(''size'', PFloat 0)])) \<and>
     check str_of [[(''size'', PFloat 0x8000000000000000)], []] =
       Inl (FormatError (format_message str_of [(''size'', PFloat 0x8000000000000000)]))"
proof (intro allI conjI)
  fix str_of :: "descriptor \<Rightarrow> string"
  show "check str_of [[(''size'', PNone)], []] = Inr True"
    using check_size_triggers [where fmt = "[(''size'', PNone)]" and v = "PNone" and str_of = str_of
        and xs = "[]" and ys = "[[]]"] by simp
  show "check str_of [[(''size'', PStr [])], []] = Inr True"
    using check_size_triggers [where fmt = "[(''size'', PStr [])]" and v = "PStr []" and str_of = str_of
        and xs = "[]" and ys = "[[]]"] by simp
  show "check str_of [[(''size'', PList [])], []] = Inr True"
    using check_size_triggers [where fmt = "[(''size'', PList [])]" and v = "PList []" and str_of = str_of
        and xs = "[]" and ys = "[[]]"] by simp
  show "check str_of [[(''size'', PInt 4)], []] = Inr True"
    using check_size_triggers [where fmt = "[(''size'', PInt 4)]" and v = "PInt 4" and str_of = str_of
        and xs = "[]" and ys = "[[]]"] by simp
  show "check str_of [[(''size'', PInt 0)], []] =
       Inl (FormatError (format_message str_of [(''size'', PInt 0)]))"
    using check_size_triggers [where fmt = "[(''size'', PInt 0)]" and v = "PInt 0" and str_of = str_of
        and xs = "[]" and ys = "[[]]"] by simp
  show "check str_of [[(''size'', PBool False)], []] =
       Inl (FormatError (format_message str_of [(''size'', PBool False)]))"
    using check_size_triggers [where fmt = "[(''size'', PBool False)]" and v = "PBool False" and str_of = str_of
        and xs = "[]" and ys = "[[]]"] by simp
  show "check str_of [[(''size'', PFloat 0)], []] =
       Inl (FormatError (format_message str_of [(''size'', PFloat 0)]))"
    using check_size_triggers [where fmt = "[(''size'', PFloat 0)]" and v = "PFloat 0" and str_of = str_of
        and xs = "[]" and ys = "[[]]"] by simp
  show "check str_of [[(''size'', PFloat 0x8000000000000000)], []] =
       Inl (FormatError (format_message str_of [(''size'', PFloat 0x8000000000000000)]))"
    using check_size_triggers [where fmt = "[(''size'', PFloat 0x8000000000000000)]" and v = "PFloat 0x8000000000000000" and str_of = str_of
        and xs = "[]" and ys = "[[]]"]
    by simp
qed

end
